theory Spec2Isabelle
  imports Main "HOL-Library.Word" "HOL-Library.Sublist"
begin

section \<open>DatasourcesService: a shallow embedding\<close>

text \<open>
  The theory follows \<^verbatim>\<open>feed-mgr/services/DatasourcesService.js\<close>: the two pure helpers
  \<^verbatim>\<open>filterArrayByIds\<close> and \<^verbatim>\<open>getIds\<close>, the factory \<^verbatim>\<open>newJdbcDatasource\<close>, and the four
  operations that go through \<^verbatim>\<open>$http\<close>. JavaScript values live in an explicit store, so
  that identity and mutation of arrays and objects can be stated; the transport
  \<^verbatim>\<open>$http\<close> and the constant \<^verbatim>\<open>RestUrlService.GET_DATASOURCES_URL\<close> are parameters.
\<close>

subsection \<open>Strings\<close>

text \<open>
  A JavaScript string is a sequence of 16-bit code units. \<open>ustr\<close> writes a source
  literal: every character of the literals of this file is ASCII, one code unit each.
\<close>

type_synonym code_unit = "16 word"
type_synonym jsstring = "code_unit list"

definition ustr :: "string \<Rightarrow> jsstring" where
  "ustr s = map (\<lambda>c. of_nat (of_char c)) s"

datatype js_error = TypeError | URIError

subsection \<open>encodeURIComponent\<close>

text \<open>
  \<^verbatim>\<open>encodeURIComponent\<close> is the language's \<open>Encode\<close> with the unescaped set
  \<^verbatim>\<open>A-Z a-z 0-9 - _ . ! ~ * ' ( )\<close>. A code unit of that set is copied. Any other
  code unit starts a code point (one unit, or a leading surrogate and the trailing
  surrogate after it), which is written as the \<^verbatim>\<open>%XX\<close> escapes of its UTF-8 octets.
  A surrogate with no partner makes the function throw \<^verbatim>\<open>URIError\<close>.
\<close>

definition uriUnescaped :: "code_unit \<Rightarrow> bool" where
  "uriUnescaped c \<longleftrightarrow>
     (0x41 \<le> c \<and> c \<le> 0x5A) \<or> (0x61 \<le> c \<and> c \<le> 0x7A) \<or> (0x30 \<le> c \<and> c \<le> 0x39) \<or>
     c \<in> set (ustr ''-_.!~*()'') \<or> c = 0x27"

definition isLeadingSurrogate :: "code_unit \<Rightarrow> bool" where
  "isLeadingSurrogate c \<longleftrightarrow> 0xD800 \<le> c \<and> c \<le> 0xDBFF"

definition isTrailingSurrogate :: "code_unit \<Rightarrow> bool" where
  "isTrailingSurrogate c \<longleftrightarrow> 0xDC00 \<le> c \<and> c \<le> 0xDFFF"

definition UTF16SurrogatePairToCodePoint :: "code_unit \<Rightarrow> code_unit \<Rightarrow> nat" where
  "UTF16SurrogatePairToCodePoint lead trail =
     (unat lead - 0xD800) * 0x400 + (unat trail - 0xDC00) + 0x10000"

definition utf8 :: "nat \<Rightarrow> nat list" where
  "utf8 cp =
     (if cp < 0x80 then [cp]
      else if cp < 0x800 then [0xC0 + cp div 0x40, 0x80 + cp mod 0x40]
      else if cp < 0x10000 then
        [0xE0 + cp div 0x1000, 0x80 + cp div 0x40 mod 0x40, 0x80 + cp mod 0x40]
      else
        [0xF0 + cp div 0x40000, 0x80 + cp div 0x1000 mod 0x40,
         0x80 + cp div 0x40 mod 0x40, 0x80 + cp mod 0x40])"

definition hexDigit :: "nat \<Rightarrow> code_unit" where
  "hexDigit n = (if n < 10 then 0x30 + of_nat n else 0x41 + of_nat (n - 10))"

definition escape :: "nat \<Rightarrow> jsstring" where
  "escape octet = [0x25, hexDigit (octet div 16), hexDigit (octet mod 16)]"

definition escapes :: "nat \<Rightarrow> jsstring" where
  "escapes cp = concat (map escape (utf8 cp))"

fun Encode :: "jsstring \<Rightarrow> js_error + jsstring" where
  "Encode [] = Inr []"
| "Encode (c # cs) =
     (if uriUnescaped c then map_sum id ((#) c) (Encode cs)
      else if \<not> isLeadingSurrogate c \<and> \<not> isTrailingSurrogate c then
        map_sum id ((@) (escapes (unat c))) (Encode cs)
      else if isTrailingSurrogate c then Inl URIError
      else
        (case cs of
           [] \<Rightarrow> Inl URIError
         | d # ds \<Rightarrow>
             if \<not> isTrailingSurrogate d then Inl URIError
             else map_sum id ((@) (escapes (UTF16SurrogatePairToCodePoint c d))) (Encode ds)))"

definition encodeURIComponent :: "jsstring \<Rightarrow> js_error + jsstring" where
  "encodeURIComponent uriComponent = Encode uriComponent"

text \<open>
  Two notions the statements about escaping are measured against. \<open>wellFormed\<close>: every
  surrogate of the string is half of a pair. \<open>segment\<close>: the string is a path segment
  of RFC 3986, that is a sequence of unreserved characters, sub-delimiters,
  \<^verbatim>\<open>:\<close>, \<^verbatim>\<open>@\<close> and \<^verbatim>\<open>%\<close> escapes of two hexadecimal digits.
\<close>

fun wellFormed :: "jsstring \<Rightarrow> bool" where
  "wellFormed [] \<longleftrightarrow> True"
| "wellFormed (c # cs) \<longleftrightarrow>
     (if isLeadingSurrogate c then
        (case cs of [] \<Rightarrow> False | d # ds \<Rightarrow> isTrailingSurrogate d \<and> wellFormed ds)
      else \<not> isTrailingSurrogate c \<and> wellFormed cs)"

definition hexdig :: "code_unit \<Rightarrow> bool" where
  "hexdig c \<longleftrightarrow> (0x30 \<le> c \<and> c \<le> 0x39) \<or> (0x41 \<le> c \<and> c \<le> 0x46) \<or> (0x61 \<le> c \<and> c \<le> 0x66)"

definition pchar :: "code_unit \<Rightarrow> bool" where
  "pchar c \<longleftrightarrow>
     (0x41 \<le> c \<and> c \<le> 0x5A) \<or> (0x61 \<le> c \<and> c \<le> 0x7A) \<or> (0x30 \<le> c \<and> c \<le> 0x39) \<or>
     c \<in> set (ustr ''-._~'') \<or> c \<in> set (ustr ''!$&()*+,;='') \<or> c = 0x27 \<or>
     c \<in> set (ustr '':@'')"

fun segment :: "jsstring \<Rightarrow> bool" where
  "segment [] \<longleftrightarrow> True"
| "segment (c # cs) \<longleftrightarrow>
     (if c = 0x25 then
        (case cs of
           h # l # rest \<Rightarrow> hexdig h \<and> hexdig l \<and> segment rest
         | _ \<Rightarrow> False)
      else pchar c \<and> segment cs)"

subsection \<open>Values and the store\<close>

text \<open>
  The values the service handles: \<^verbatim>\<open>undefined\<close>, \<^verbatim>\<open>null\<close>, strings, and references to
  the arrays and plain objects of the store. An object is its own properties in the
  order they were written (the first binding of a key is the one read); an array is its
  elements. Strict equality \<^verbatim>\<open>===\<close> on these values is equality of the constructors:
  strings by their code units, references by their address.
\<close>

type_synonym addr = nat

datatype jsval = Undefined | Null | Str jsstring | Ref addr

datatype heapobj = Object "(jsstring \<times> jsval) list" | Array "jsval list"

type_synonym heap = "heapobj list"

definition deref :: "heap \<Rightarrow> addr \<Rightarrow> heapobj option" where
  "deref h a = (if a < length h then Some (h ! a) else None)"

text \<open>An array or object literal allocates: the new cell takes the next address.\<close>

definition alloc :: "heap \<Rightarrow> heapobj \<Rightarrow> jsval \<times> heap" where
  "alloc h obj = (Ref (length h), h @ [obj])"

text \<open>\<^verbatim>\<open>angular.isArray\<close> is \<^verbatim>\<open>Array.isArray\<close>.\<close>

definition isArray :: "heap \<Rightarrow> jsval \<Rightarrow> bool" where
  "isArray h v =
     (case v of
        Ref a \<Rightarrow> (case deref h a of Some (Array xs) \<Rightarrow> True | _ \<Rightarrow> False)
      | _ \<Rightarrow> False)"

definition elements :: "heap \<Rightarrow> jsval \<Rightarrow> jsval list option" where
  "elements h v =
     (case v of
        Ref a \<Rightarrow> (case deref h a of Some (Array xs) \<Rightarrow> Some xs | _ \<Rightarrow> None)
      | _ \<Rightarrow> None)"

definition own_property :: "heap \<Rightarrow> jsval \<Rightarrow> jsstring \<Rightarrow> jsval option" where
  "own_property h v k =
     (case v of
        Ref a \<Rightarrow> (case deref h a of Some (Object ps) \<Rightarrow> map_of ps k | _ \<Rightarrow> None)
      | _ \<Rightarrow> None)"

definition field :: "heap \<Rightarrow> jsval \<Rightarrow> jsstring \<Rightarrow> jsval" where
  "field h v k = (case own_property h v k of None \<Rightarrow> Undefined | Some x \<Rightarrow> x)"

text \<open>
  The member expression \<^verbatim>\<open>datasource.id\<close>. Reading a property of \<^verbatim>\<open>undefined\<close> or
  \<^verbatim>\<open>null\<close> throws \<^verbatim>\<open>TypeError\<close>. A plain object yields its own property, or
  \<^verbatim>\<open>undefined\<close> when it has none of that name; a string and an array have no
  property \<^verbatim>\<open>id\<close>. (An address outside the store, which no program can build, reads
  as an object with no property.)
\<close>

definition get_id :: "heap \<Rightarrow> jsval \<Rightarrow> js_error + jsval" where
  "get_id h datasource =
     (case datasource of
        Undefined \<Rightarrow> Inl TypeError
      | Null \<Rightarrow> Inl TypeError
      | _ \<Rightarrow> Inr (field h datasource (ustr ''id'')))"

subsection \<open>Array methods\<close>

text \<open>
  \<^verbatim>\<open>xs.indexOf(v)\<close>: the index of the first element strictly equal to \<open>v\<close>, or \<open>-1\<close>.
  A receiver that is not an array has no such method here and the call throws (the
  receiver in this service is always an array).
\<close>

fun index_from :: "jsval list \<Rightarrow> jsval \<Rightarrow> int \<Rightarrow> int" where
  "index_from [] v k = - 1"
| "index_from (x # xs) v k = (if x = v then k else index_from xs v (k + 1))"

definition indexOf :: "heap \<Rightarrow> jsval \<Rightarrow> jsval \<Rightarrow> js_error + int" where
  "indexOf h receiver v =
     (case elements h receiver of
        None \<Rightarrow> Inl TypeError
      | Some xs \<Rightarrow> Inr (index_from xs v 0))"

text \<open>
  \<^verbatim>\<open>array.filter(callback)\<close> and \<^verbatim>\<open>array.map(callback)\<close> visit the elements from the
  first to the last; an exception of the callback ends the call. Both return a new
  array. A receiver that is not an array has neither method: the call throws
  \<^verbatim>\<open>TypeError\<close>.
\<close>

fun filter_elements :: "(jsval \<Rightarrow> js_error + bool) \<Rightarrow> jsval list \<Rightarrow> js_error + jsval list" where
  "filter_elements callback [] = Inr []"
| "filter_elements callback (x # xs) =
     (case callback x of
        Inl e \<Rightarrow> Inl e
      | Inr keep \<Rightarrow>
          (case filter_elements callback xs of
             Inl e \<Rightarrow> Inl e
           | Inr ys \<Rightarrow> Inr (if keep then x # ys else ys)))"

fun map_elements :: "(jsval \<Rightarrow> js_error + jsval) \<Rightarrow> jsval list \<Rightarrow> js_error + jsval list" where
  "map_elements callback [] = Inr []"
| "map_elements callback (x # xs) =
     (case callback x of
        Inl e \<Rightarrow> Inl e
      | Inr y \<Rightarrow>
          (case map_elements callback xs of
             Inl e \<Rightarrow> Inl e
           | Inr ys \<Rightarrow> Inr (y # ys)))"

definition array_filter ::
  "heap \<Rightarrow> jsval \<Rightarrow> (jsval \<Rightarrow> js_error + bool) \<Rightarrow> (js_error + jsval) \<times> heap" where
  "array_filter h array callback =
     (case elements h array of
        None \<Rightarrow> (Inl TypeError, h)
      | Some xs \<Rightarrow>
          (case filter_elements callback xs of
             Inl e \<Rightarrow> (Inl e, h)
           | Inr ys \<Rightarrow> (case alloc h (Array ys) of (r, h') \<Rightarrow> (Inr r, h'))))"

definition array_map ::
  "heap \<Rightarrow> jsval \<Rightarrow> (jsval \<Rightarrow> js_error + jsval) \<Rightarrow> (js_error + jsval) \<times> heap" where
  "array_map h array callback =
     (case elements h array of
        None \<Rightarrow> (Inl TypeError, h)
      | Some xs \<Rightarrow>
          (case map_elements callback xs of
             Inl e \<Rightarrow> (Inl e, h)
           | Inr ys \<Rightarrow> (case alloc h (Array ys) of (r, h') \<Rightarrow> (Inr r, h'))))"

subsection \<open>The pure helpers and the factory\<close>

definition JDBC_TYPE :: jsstring where
  "JDBC_TYPE = ustr ''JdbcDatasource''"

definition USER_TYPE :: jsstring where
  "USER_TYPE = ustr ''UserDatasource''"

text \<open>
  \<^verbatim>\<open>var idList = angular.isArray(ids) ? ids : [ids];\<close>
  \<^verbatim>\<open>return array.filter(function (datasource) { return (idList.indexOf(datasource.id) > -1); });\<close>
\<close>

definition filterArrayByIds :: "heap \<Rightarrow> jsval \<Rightarrow> jsval \<Rightarrow> (js_error + jsval) \<times> heap" where
  "filterArrayByIds h ids array =
     (case (if isArray h ids then (ids, h) else alloc h (Array [ids])) of
        (idList, h1) \<Rightarrow>
          array_filter h1 array
            (\<lambda>datasource.
               case get_id h1 datasource of
                 Inl e \<Rightarrow> Inl e
               | Inr i \<Rightarrow>
                   (case indexOf h1 idList i of
                      Inl e \<Rightarrow> Inl e
                    | Inr n \<Rightarrow> Inr (n > - 1))))"

text \<open>
  \<^verbatim>\<open>var array = angular.isArray(datasources) ? datasources : [datasources];\<close>
  \<^verbatim>\<open>return array.map(function (datasource) { return datasource.id; });\<close>
\<close>

definition getIds :: "heap \<Rightarrow> jsval \<Rightarrow> (js_error + jsval) \<times> heap" where
  "getIds h datasources =
     (case (if isArray h datasources then (datasources, h) else alloc h (Array [datasources])) of
        (array, h1) \<Rightarrow> array_map h1 array (\<lambda>datasource. get_id h1 datasource))"

text \<open>
  The object literal of \<^verbatim>\<open>newJdbcDatasource\<close>; its \<^verbatim>\<open>[]\<close> is an array of its own.
\<close>

definition newJdbcDatasource :: "heap \<Rightarrow> jsval \<times> heap" where
  "newJdbcDatasource h =
     (case alloc h (Array []) of
        (feeds, h1) \<Rightarrow>
          alloc h1
            (Object
              [(ustr ''@type'', Str JDBC_TYPE),
               (ustr ''name'', Str (ustr '''')),
               (ustr ''description'', Str (ustr '''')),
               (ustr ''sourceForFeeds'', feeds),
               (ustr ''type'', Str (ustr '''')),
               (ustr ''databaseConnectionUrl'', Str (ustr '''')),
               (ustr ''databaseDriverClassName'', Str (ustr '''')),
               (ustr ''databaseDriverLocation'', Str (ustr '''')),
               (ustr ''databaseUser'', Str (ustr '''')),
               (ustr ''password'', Str (ustr ''''))]))"

subsection \<open>The transport and the asynchronous operations\<close>

text \<open>
  A request is the configuration object handed to \<^verbatim>\<open>$http\<close> (a field left out of the
  source's object is \<^verbatim>\<open>undefined\<close>, or no parameter); a response is the object
  \<^verbatim>\<open>$http\<close> fulfils its promise with. A promise is modelled by how it settles, if it
  does. The transport is a parameter: it takes a request and the state of the world
  \<open>'w\<close>, and gives the promise and the next state. What it rejects with has any type
  \<open>'e\<close>.
\<close>

record request =
  req_method :: jsstring
  req_url :: jsstring
  req_params :: "(jsstring \<times> jsval) list"
  req_data :: jsval

record response =
  data :: jsval
  status :: nat
  statusText :: jsstring

datatype ('a, 'e) promise = Pending | Resolved 'a | Rejected 'e

type_synonym ('w, 'e) http = "request \<Rightarrow> 'w \<Rightarrow> (response, 'e) promise \<times> 'w"

text \<open>
  \<^verbatim>\<open>promise.then(onFulfilled)\<close> with no rejection handler: a fulfilled promise gives
  the callback's result, a rejected one passes its reason on.
\<close>

definition then_promise :: "('a, 'e) promise \<Rightarrow> ('a \<Rightarrow> 'b) \<Rightarrow> ('b, 'e) promise" where
  "then_promise p onFulfilled =
     (case p of
        Pending \<Rightarrow> Pending
      | Resolved x \<Rightarrow> Resolved (onFulfilled x)
      | Rejected e \<Rightarrow> Rejected e)"

text \<open>\<^verbatim>\<open>$http.get(url, {params: ...})\<close> and \<^verbatim>\<open>$http.post(url, data)\<close>.\<close>

definition http_get ::
  "('w, 'e) http \<Rightarrow> jsstring \<Rightarrow> (jsstring \<times> jsval) list \<Rightarrow> 'w \<Rightarrow> (response, 'e) promise \<times> 'w" where
  "http_get http u ps =
     http \<lparr>req_method = ustr ''GET'', req_url = u, req_params = ps, req_data = Undefined\<rparr>"

definition http_post ::
  "('w, 'e) http \<Rightarrow> jsstring \<Rightarrow> jsval \<Rightarrow> 'w \<Rightarrow> (response, 'e) promise \<times> 'w" where
  "http_post http u d =
     http \<lparr>req_method = ustr ''POST'', req_url = u, req_params = [], req_data = d\<rparr>"

text \<open>
  \<^verbatim>\<open>deleteById\<close> evaluates \<^verbatim>\<open>encodeURIComponent(id)\<close> before it calls \<^verbatim>\<open>$http\<close>, and
  returns the promise of \<^verbatim>\<open>$http\<close> as it is.
\<close>

definition deleteById ::
  "jsstring \<Rightarrow> ('w, 'e) http \<Rightarrow> jsstring \<Rightarrow> 'w \<Rightarrow> (js_error + (response, 'e) promise) \<times> 'w" where
  "deleteById GET_DATASOURCES_URL http ident w =
     (case encodeURIComponent ident of
        Inl e \<Rightarrow> (Inl e, w)
      | Inr escaped \<Rightarrow>
          (case http \<lparr>req_method = ustr ''DELETE'',
                      req_url = GET_DATASOURCES_URL @ ustr ''/'' @ escaped,
                      req_params = [], req_data = Undefined\<rparr> w of
             (p, w') \<Rightarrow> (Inr p, w')))"

definition findAll :: "jsstring \<Rightarrow> ('w, 'e) http \<Rightarrow> 'w \<Rightarrow> (jsval, 'e) promise \<times> 'w" where
  "findAll GET_DATASOURCES_URL http w =
     (case http_get http GET_DATASOURCES_URL [(ustr ''type'', Str USER_TYPE)] w of
        (p, w') \<Rightarrow> (then_promise p (\<lambda>response. data response), w'))"

definition findById ::
  "jsstring \<Rightarrow> ('w, 'e) http \<Rightarrow> jsstring \<Rightarrow> 'w \<Rightarrow> (jsval, 'e) promise \<times> 'w" where
  "findById GET_DATASOURCES_URL http ident w =
     (case http_get http (GET_DATASOURCES_URL @ ustr ''/'' @ ident) [] w of
        (p, w') \<Rightarrow> (then_promise p (\<lambda>response. data response), w'))"

definition save :: "jsstring \<Rightarrow> ('w, 'e) http \<Rightarrow> jsval \<Rightarrow> 'w \<Rightarrow> (jsval, 'e) promise \<times> 'w" where
  "save GET_DATASOURCES_URL http datasource w =
     (case http_post http GET_DATASOURCES_URL datasource w of
        (p, w') \<Rightarrow> (then_promise p (\<lambda>response. data response), w'))"

text \<open>
  A transport that records: the world is the list of the requests issued so far, and
  \<open>answer\<close> settles each request given that list.
\<close>

definition recording ::
  "(request list \<Rightarrow> request \<Rightarrow> (response, 'e) promise) \<Rightarrow> (request list, 'e) http" where
  "recording answer req issued = (answer issued req, issued @ [req])"

text \<open>
  Sample transports and responses, used where a statement is evaluated on concrete
  input: one that fulfils every request with a given response, one that rejects every
  request with a given response, as \<^verbatim>\<open>$http\<close> does on an error status.
\<close>

definition fulfils :: "response \<Rightarrow> request list \<Rightarrow> request \<Rightarrow> (response, response) promise" where
  "fulfils r issued req = Resolved r"

definition rejects :: "response \<Rightarrow> request list \<Rightarrow> request \<Rightarrow> (response, response) promise" where
  "rejects r issued req = Rejected r"

definition ok_response :: "jsval \<Rightarrow> response" where
  "ok_response d = \<lparr>data = d, status = 200, statusText = ustr ''OK''\<rparr>"

definition not_found :: response where
  "not_found = \<lparr>data = Undefined, status = 404, statusText = ustr ''Not Found''\<rparr>"

text \<open>
  What the statements about the helpers call a datasource: a reference to a plain
  object of the store (with or without an \<^verbatim>\<open>id\<close>).
\<close>

definition is_datasource :: "heap \<Rightarrow> jsval \<Rightarrow> bool" where
  "is_datasource h v =
     (case v of
        Ref a \<Rightarrow> (case deref h a of Some (Object ps) \<Rightarrow> True | _ \<Rightarrow> False)
      | _ \<Rightarrow> False)"

text \<open>
  A sample store: three saved datasources at the addresses 0 to 2, the array of
  them, an array of two ids, a datasource with no \<^verbatim>\<open>id\<close>, and an array in which a
  datasource occurs twice.
\<close>

definition sample_store :: heap where
  "sample_store =
     [Object [(ustr ''id'', Str (ustr ''a''))],
      Object [(ustr ''id'', Str (ustr ''b''))],
      Object [(ustr ''id'', Str (ustr ''c''))],
      Array [Ref 0, Ref 1, Ref 2],
      Array [Str (ustr ''a''), Str (ustr ''c'')],
      Object [(ustr ''name'', Str (ustr ''unsaved''))],
      Array [Ref 0, Ref 5, Ref 0]]"

section \<open>Strings and escaping\<close>

lemma code_unit_of_char_inj:
  "(word_of_nat (of_char c) :: code_unit) = word_of_nat (of_char d) \<longleftrightarrow> c = d"
proof -
  have c: "(of_char c :: nat) < 2 ^ 16" and d: "(of_char d :: nat) < 2 ^ 16"
    by (rule less_trans [OF nat_of_char_less_256], simp)+
  have "(word_of_nat (of_char c) :: code_unit) = word_of_nat (of_char d)
      \<longleftrightarrow> (of_char c :: nat) = of_char d"
    using c d by (simp add: word_of_nat_eq_iff take_bit_nat_eq_self)
  then show ?thesis by simp
qed

lemma ustr_eq_iff [simp]: "ustr a = ustr b \<longleftrightarrow> a = b"
  unfolding ustr_def
  by (rule inj_map_eq_map) (simp only: inj_on_def code_unit_of_char_inj, simp)

lemma unescaped_pchar: "uriUnescaped c \<Longrightarrow> pchar c"
  by (auto simp: uriUnescaped_def pchar_def ustr_def)

lemma unescaped_not_percent: "uriUnescaped c \<Longrightarrow> c \<noteq> 0x25"
  by (auto simp: uriUnescaped_def ustr_def)

lemma unescaped_not_surrogate:
  "uriUnescaped c \<Longrightarrow> \<not> isLeadingSurrogate c \<and> \<not> isTrailingSurrogate c"
  by (auto simp: uriUnescaped_def ustr_def isLeadingSurrogate_def isTrailingSurrogate_def word_le_nat_alt)

lemma hexDigit_cases:
  "n < 16 \<Longrightarrow> hexDigit n \<in> set (ustr ''0123456789ABCDEF'')"
proof -
  assume "n < 16"
  then have "n \<in> {0,1,2,3,4,5,6,7,8,9,10,11,12,13,14,15}"
    by simp arith
  then show ?thesis
    by (auto simp: hexDigit_def ustr_def)
qed

lemma hexdig_hexDigit: "n < 16 \<Longrightarrow> hexdig (hexDigit n)"
  using hexDigit_cases [of n] by (auto simp: hexdig_def ustr_def)


lemma utf8_octets: "cp < 0x110000 \<Longrightarrow> b \<in> set (utf8 cp) \<Longrightarrow> b < 256"
  by (auto simp: utf8_def split: if_splits)

lemma segment_append: "segment a \<Longrightarrow> segment b \<Longrightarrow> segment (a @ b)"
  by (induction a rule: segment.induct) (auto split: list.splits if_splits)

lemma segment_escape: "b < 256 \<Longrightarrow> segment (escape b)"
  by (simp add: escape_def hexdig_hexDigit)

lemma segment_concat_escape: "\<forall>b \<in> set bs. b < 256 \<Longrightarrow> segment (concat (map escape bs))"
  by (induction bs) (simp_all add: segment_append segment_escape)

lemma segment_escapes: "cp < 0x110000 \<Longrightarrow> segment (escapes cp)"
  unfolding escapes_def by (rule segment_concat_escape) (simp add: utf8_octets)

lemma pair_code_point:
  "isLeadingSurrogate c \<Longrightarrow> isTrailingSurrogate d \<Longrightarrow> UTF16SurrogatePairToCodePoint c d < 0x110000"
  unfolding isLeadingSurrogate_def isTrailingSurrogate_def UTF16SurrogatePairToCodePoint_def
    word_le_nat_alt
  by simp arith

lemma unit_code_point: "unat (c :: code_unit) < 0x110000"
proof -
  have "unat c < 2 ^ LENGTH(16)" by (rule unsigned_less)
  then show ?thesis by simp
qed

lemma Encode_segment: "Encode s = Inr r \<Longrightarrow> segment r"
proof (induction s arbitrary: r rule: Encode.induct)
  case 1
  then show ?case by simp
next
  case (2 c cs)
  show ?case
  proof (cases "uriUnescaped c")
    case True
    with "2.prems" obtain r' where r': "Encode cs = Inr r'" "r = c # r'"
      by (cases "Encode cs") auto
    with True "2.IH"(1) show ?thesis
      by (simp add: unescaped_pchar unescaped_not_percent)
  next
    case False
    show ?thesis
    proof (cases "\<not> isLeadingSurrogate c \<and> \<not> isTrailingSurrogate c")
      case True
      with False "2.prems" obtain r' where r': "Encode cs = Inr r'" "r = escapes (unat c) @ r'"
        by (cases "Encode cs") auto
      with False True "2.IH"(2) show ?thesis
        by (simp add: segment_append segment_escapes unit_code_point)
    next
      case nonsingle: False
      with False "2.prems" have lead: "isLeadingSurrogate c" and nt: "\<not> isTrailingSurrogate c"
        by (auto split: if_splits)
      from False nonsingle "2.prems" nt obtain d ds where cs: "cs = d # ds"
        by (cases cs) auto
      with False nonsingle "2.prems" nt have trail: "isTrailingSurrogate d"
        by (auto split: if_splits)
      with False nonsingle "2.prems" nt cs obtain r' where
        r': "Encode ds = Inr r'" "r = escapes (UTF16SurrogatePairToCodePoint c d) @ r'"
        by (cases "Encode ds") auto
      from "2.IH"(3) [OF False nonsingle nt cs _ r'(1)] trail have "segment r'" by simp
      with r' lead trail show ?thesis
        by (simp add: segment_append segment_escapes pair_code_point)
    qed
  qed
qed

lemma Encode_wellFormed: "wellFormed s \<Longrightarrow> \<exists>r. Encode s = Inr r"
proof (induction s rule: Encode.induct)
  case 1
  then show ?case by simp
next
  case (2 c cs)
  show ?case
  proof (cases "uriUnescaped c")
    case True
    with "2.prems" have "wellFormed cs"
      by (simp add: unescaped_not_surrogate)
    with True "2.IH"(1) show ?thesis by auto
  next
    case False
    show ?thesis
    proof (cases "isLeadingSurrogate c")
      case lead: True
      then have nt: "\<not> isTrailingSurrogate c"
        by (auto simp: isLeadingSurrogate_def isTrailingSurrogate_def word_le_nat_alt)
      from lead "2.prems" obtain d ds where cs: "cs = d # ds" and d: "isTrailingSurrogate d"
        and ds: "wellFormed ds"
        by (cases cs) auto
      from "2.IH"(3) [OF False _ nt cs] lead d ds obtain r where "Encode ds = Inr r" by auto
      with False lead nt cs d show ?thesis by simp
    next
      case nolead: False
      with "2.prems" have nt: "\<not> isTrailingSurrogate c" and cs: "wellFormed cs" by simp_all
      from "2.IH"(2) [OF False] nolead nt cs obtain r where "Encode cs = Inr r" by auto
      with False nolead nt show ?thesis by simp
    qed
  qed
qed

lemma Encode_error: "Encode s = Inl e \<Longrightarrow> e = URIError \<and> \<not> wellFormed s"
proof (induction s rule: Encode.induct)
  case 1
  then show ?case by simp
next
  case (2 c cs)
  show ?case
  proof (cases "uriUnescaped c")
    case True
    with "2.prems" have "Encode cs = Inl e" by (cases "Encode cs") auto
    with True "2.IH"(1) show ?thesis by (simp add: unescaped_not_surrogate)
  next
    case False
    show ?thesis
    proof (cases "\<not> isLeadingSurrogate c \<and> \<not> isTrailingSurrogate c")
      case True
      with False "2.prems" have "Encode cs = Inl e" by (cases "Encode cs") auto
      with False True "2.IH"(2) show ?thesis by simp
    next
      case nonsingle: False
      show ?thesis
      proof (cases "isTrailingSurrogate c")
        case True
        then have "\<not> isLeadingSurrogate c"
          by (auto simp: isLeadingSurrogate_def isTrailingSurrogate_def word_le_nat_alt)
        with False nonsingle True "2.prems" show ?thesis by simp
      next
        case nt: False
        with nonsingle have lead: "isLeadingSurrogate c" by simp
        show ?thesis
        proof (cases cs)
          case Nil
          with False nonsingle nt lead "2.prems" show ?thesis by simp
        next
          case (Cons d ds)
          show ?thesis
          proof (cases "isTrailingSurrogate d")
            case True
            with False nonsingle nt Cons "2.prems" have "Encode ds = Inl e"
              by (cases "Encode ds") auto
            with "2.IH"(3) [OF False nonsingle nt Cons] True lead Cons show ?thesis by simp
          next
            case False
            with \<open>\<not> uriUnescaped c\<close> nonsingle nt lead Cons "2.prems" show ?thesis by simp
          qed
        qed
      qed
    qed
  qed
qed

lemma segment_no_delimiter: "segment r \<Longrightarrow> 0x2F \<notin> set r \<and> 0x3F \<notin> set r \<and> 0x23 \<notin> set r"
proof (induction r rule: segment.induct)
  case 1
  then show ?case by simp
next
  case (2 c cs)
  show ?case
  proof (cases "c = 0x25")
    case True
    with "2.prems" obtain h l rest where cs: "cs = h # l # rest" and hl: "hexdig h" "hexdig l"
      and rest: "segment rest"
      by (auto split: list.splits)
    from "2.IH"(1) [OF True cs] rest have "0x2F \<notin> set rest \<and> 0x3F \<notin> set rest \<and> 0x23 \<notin> set rest"
      by simp
    moreover from hl have "h \<noteq> 0x2F \<and> h \<noteq> 0x3F \<and> h \<noteq> 0x23 \<and> l \<noteq> 0x2F \<and> l \<noteq> 0x3F \<and> l \<noteq> 0x23"
      by (auto simp: hexdig_def)
    ultimately show ?thesis using True cs by auto
  next
    case False
    with "2.prems" have "pchar c" "segment cs" by simp_all
    moreover from \<open>pchar c\<close> have "c \<noteq> 0x2F \<and> c \<noteq> 0x3F \<and> c \<noteq> 0x23"
      by (auto simp: pchar_def ustr_def)
    ultimately show ?thesis using "2.IH"(2) [OF False] by auto
  qed
qed

lemma encodeURIComponent_total:
  "wellFormed s \<Longrightarrow> \<exists>r. encodeURIComponent s = Inr r \<and> segment r"
  using Encode_wellFormed [of s] Encode_segment [of s]
  by (auto simp: encodeURIComponent_def)

lemma Encode_Inr_wellFormed: "Encode s = Inr r \<Longrightarrow> wellFormed s"
proof (induction s arbitrary: r rule: Encode.induct)
  case 1
  then show ?case by simp
next
  case (2 c cs)
  show ?case
  proof (cases "uriUnescaped c")
    case True
    with "2.prems" obtain r' where "Encode cs = Inr r'"
      by (cases "Encode cs") auto
    with True "2.IH"(1) show ?thesis
      by (simp add: unescaped_not_surrogate)
  next
    case False
    show ?thesis
    proof (cases "\<not> isLeadingSurrogate c \<and> \<not> isTrailingSurrogate c")
      case True
      with False "2.prems" obtain r' where "Encode cs = Inr r'"
        by (cases "Encode cs") auto
      with False True "2.IH"(2) show ?thesis by simp
    next
      case nonsingle: False
      with False "2.prems" have lead: "isLeadingSurrogate c" and nt: "\<not> isTrailingSurrogate c"
        by (auto split: if_splits)
      from False nonsingle "2.prems" nt obtain d ds where cs: "cs = d # ds"
        by (cases cs) auto
      with False nonsingle "2.prems" nt have trail: "isTrailingSurrogate d"
        by (auto split: if_splits)
      with False nonsingle "2.prems" nt cs obtain r' where r': "Encode ds = Inr r'"
        by (cases "Encode ds") auto
      from "2.IH"(3) [OF False nonsingle nt cs _ r'] trail have "wellFormed ds" by simp
      with lead trail cs show ?thesis by simp
    qed
  qed
qed

lemma encodeURIComponent_throws:
  "\<not> wellFormed s \<Longrightarrow> encodeURIComponent s = Inl URIError"
  using Encode_Inr_wellFormed [of s] Encode_error [of s]
  by (cases "Encode s") (auto simp: encodeURIComponent_def)

lemma encodeURIComponent_Inl:
  "encodeURIComponent s = Inl e \<Longrightarrow> e = URIError \<and> \<not> wellFormed s"
  using Encode_error [of s e] by (simp add: encodeURIComponent_def)

lemma Encode_sample: "Encode (ustr ''a/b?'') = Inr (ustr ''a%2Fb%3F'')"
  by (simp add: ustr_def uriUnescaped_def isLeadingSurrogate_def isTrailingSurrogate_def
      escapes_def utf8_def escape_def hexDigit_def)

lemma wellFormed_sample: "wellFormed (ustr ''a/b?'')"
  by (simp add: ustr_def isLeadingSurrogate_def isTrailingSurrogate_def)

section \<open>The asynchronous operations\<close>

text \<open>
  The statements below run an operation against the recording transport, started with
  any list \<open>issued\<close> of earlier requests and any way \<open>answer\<close> of settling a request:
  the second component of the result is the list of requests after the call, the first
  is the promise the caller gets.
\<close>

text \<open>
  Claim C4. \<^verbatim>\<open>findAll()\<close> issues exactly one request: a \<^verbatim>\<open>GET\<close> of the base endpoint
  with the query parameter \<^verbatim>\<open>type\<close> set to \<^verbatim>\<open>"UserDatasource"\<close>. When the transport
  fulfils that request with a response \<open>r\<close>, the promise of \<^verbatim>\<open>findAll\<close> is fulfilled
  with the \<^verbatim>\<open>data\<close> field of \<open>r\<close>, not with \<open>r\<close>.
\<close>

theorem findAll_request:
  "snd (findAll base (recording answer) issued) =
     issued @ [\<lparr>req_method = ustr ''GET'', req_url = base,
                 req_params = [(ustr ''type'', Str (ustr ''UserDatasource''))],
                 req_data = Undefined\<rparr>] \<and>
   (\<forall>r. answer issued
          \<lparr>req_method = ustr ''GET'', req_url = base,
            req_params = [(ustr ''type'', Str (ustr ''UserDatasource''))],
            req_data = Undefined\<rparr> = Resolved r \<longrightarrow>
        fst (findAll base (recording answer) issued) = Resolved (data r))"
  by (simp add: findAll_def http_get_def recording_def then_promise_def USER_TYPE_def)

theorem findAll_request_witness:
  "findAll (ustr ''/ds'') (recording (fulfils (ok_response (Ref 0)))) [] =
     (Resolved (Ref 0),
      [\<lparr>req_method = ustr ''GET'', req_url = ustr ''/ds'',
         req_params = [(ustr ''type'', Str (ustr ''UserDatasource''))],
         req_data = Undefined\<rparr>])"
  using findAll_request [of "ustr ''/ds''" "fulfils (ok_response (Ref 0))" "[]"]
  by (simp add: prod_eq_iff fulfils_def ok_response_def)

text \<open>
  Claim C5. For every datasource \<open>d\<close>, \<^verbatim>\<open>save(d)\<close> issues exactly one request: a
  \<^verbatim>\<open>POST\<close> to the base endpoint whose body is \<open>d\<close> itself, the very value the caller
  passed (\<^verbatim>\<open>save\<close> has no access to the store, so it changes no field of the entity).
  When the transport fulfils that request with a response \<open>r\<close>, the promise of
  \<^verbatim>\<open>save\<close> is fulfilled with the \<^verbatim>\<open>data\<close> field of \<open>r\<close>.
\<close>

theorem save_request:
  "snd (save base (recording answer) datasource issued) =
     issued @ [\<lparr>req_method = ustr ''POST'', req_url = base, req_params = [],
                 req_data = datasource\<rparr>] \<and>
   (\<forall>r. answer issued
          \<lparr>req_method = ustr ''POST'', req_url = base, req_params = [],
            req_data = datasource\<rparr> = Resolved r \<longrightarrow>
        fst (save base (recording answer) datasource issued) = Resolved (data r))"
  by (simp add: save_def http_post_def recording_def then_promise_def)

theorem save_request_witness:
  "save (ustr ''/ds'') (recording (fulfils (ok_response (Ref 1)))) (Ref 0) [] =
     (Resolved (Ref 1),
      [\<lparr>req_method = ustr ''POST'', req_url = ustr ''/ds'', req_params = [],
         req_data = Ref 0\<rparr>])"
  using save_request [of "ustr ''/ds''" "fulfils (ok_response (Ref 1))" "Ref 0" "[]"]
  by (simp add: prod_eq_iff fulfils_def ok_response_def)

text \<open>
  Claim C7. For every id string, \<^verbatim>\<open>findById(id)\<close> issues exactly one request: a
  \<^verbatim>\<open>GET\<close> whose URL is the base endpoint, \<^verbatim>\<open>"/"\<close> and the id as it is, with no
  escaping. When the transport fulfils that request with a response \<open>r\<close>, the promise
  of \<^verbatim>\<open>findById\<close> is fulfilled with the \<^verbatim>\<open>data\<close> field of \<open>r\<close>.
\<close>

theorem findById_request:
  "snd (findById base (recording answer) ident issued) =
     issued @ [\<lparr>req_method = ustr ''GET'', req_url = base @ ustr ''/'' @ ident,
                 req_params = [], req_data = Undefined\<rparr>] \<and>
   (\<forall>r. answer issued
          \<lparr>req_method = ustr ''GET'', req_url = base @ ustr ''/'' @ ident,
            req_params = [], req_data = Undefined\<rparr> = Resolved r \<longrightarrow>
        fst (findById base (recording answer) ident issued) = Resolved (data r))"
  by (simp add: findById_def http_get_def recording_def then_promise_def)

theorem findById_request_witness:
  "findById (ustr ''/ds'') (recording (fulfils (ok_response (Ref 0)))) (ustr ''a/b'') [] =
     (Resolved (Ref 0),
      [\<lparr>req_method = ustr ''GET'', req_url = ustr ''/ds/a/b'',
         req_params = [], req_data = Undefined\<rparr>])"
  using findById_request [of "ustr ''/ds''" "fulfils (ok_response (Ref 0))" "ustr ''a/b''" "[]"]
  by (simp add: prod_eq_iff fulfils_def ok_response_def ustr_def)

text \<open>
  Claim C6, as amended. For every id string with no unpaired surrogate,
  \<^verbatim>\<open>deleteById(id)\<close> issues exactly one request: a \<^verbatim>\<open>DELETE\<close> whose URL is the base
  endpoint, \<^verbatim>\<open>"/"\<close> and \<^verbatim>\<open>encodeURIComponent(id)\<close>; the escaped id is a single valid path
  segment (it holds no \<^verbatim>\<open>/\<close>, \<^verbatim>\<open>?\<close> or \<^verbatim>\<open>#\<close>), and the promise returned is the
  transport's. For an id string with an unpaired surrogate \<^verbatim>\<open>deleteById\<close> throws
  \<^verbatim>\<open>URIError\<close> and issues no request.
\<close>

theorem deleteById_request:
  "(wellFormed ident \<longrightarrow>
      (\<exists>escaped. encodeURIComponent ident = Inr escaped \<and> segment escaped \<and>
         0x2F \<notin> set escaped \<and> 0x3F \<notin> set escaped \<and> 0x23 \<notin> set escaped \<and>
         deleteById base (recording answer) ident issued =
           (Inr (answer issued
                  \<lparr>req_method = ustr ''DELETE'', req_url = base @ ustr ''/'' @ escaped,
                    req_params = [], req_data = Undefined\<rparr>),
            issued @ [\<lparr>req_method = ustr ''DELETE'', req_url = base @ ustr ''/'' @ escaped,
                        req_params = [], req_data = Undefined\<rparr>]))) \<and>
   (\<not> wellFormed ident \<longrightarrow>
      deleteById base (recording answer) ident issued = (Inl URIError, issued))"
proof (intro conjI impI)
  assume "wellFormed ident"
  then obtain escaped where e: "encodeURIComponent ident = Inr escaped" and s: "segment escaped"
    using encodeURIComponent_total by blast
  from s have "0x2F \<notin> set escaped \<and> 0x3F \<notin> set escaped \<and> 0x23 \<notin> set escaped"
    by (rule segment_no_delimiter)
  with e s show "\<exists>escaped. encodeURIComponent ident = Inr escaped \<and> segment escaped \<and>
         0x2F \<notin> set escaped \<and> 0x3F \<notin> set escaped \<and> 0x23 \<notin> set escaped \<and>
         deleteById base (recording answer) ident issued =
           (Inr (answer issued
                  \<lparr>req_method = ustr ''DELETE'', req_url = base @ ustr ''/'' @ escaped,
                    req_params = [], req_data = Undefined\<rparr>),
            issued @ [\<lparr>req_method = ustr ''DELETE'', req_url = base @ ustr ''/'' @ escaped,
                        req_params = [], req_data = Undefined\<rparr>])"
    by (simp add: deleteById_def recording_def)
next
  assume "\<not> wellFormed ident"
  then show "deleteById base (recording answer) ident issued = (Inl URIError, issued)"
    by (simp add: deleteById_def encodeURIComponent_throws)
qed

theorem deleteById_request_witness:
  "wellFormed (ustr ''a/b?'') \<and>
   deleteById (ustr ''/ds'') (recording (fulfils (ok_response Undefined))) (ustr ''a/b?'') [] =
     (Inr (Resolved (ok_response Undefined)),
      [\<lparr>req_method = ustr ''DELETE'', req_url = ustr ''/ds/a%2Fb%3F'',
         req_params = [], req_data = Undefined\<rparr>])"
  using deleteById_request [of "ustr ''a/b?''" "ustr ''/ds''" "fulfils (ok_response Undefined)" "[]"]
    wellFormed_sample Encode_sample
  by (auto simp: encodeURIComponent_def fulfils_def) (simp add: ustr_def)

text \<open>
  Claim C6 as stated, for every id string, fails at the one-unit string of the code unit \<open>0xD800\<close>:
  no request is issued.
\<close>

theorem deleteById_request_counterexample:
  "snd (deleteById (ustr ''/ds'') (recording (fulfils (ok_response Undefined))) [0xD800] []) = []"
  by (simp add: deleteById_def encodeURIComponent_def uriUnescaped_def ustr_def
      isLeadingSurrogate_def isTrailingSurrogate_def)

lemma Encode_plain: "Encode (ustr ''a'') = Inr (ustr ''a'')"
  by (simp add: ustr_def uriUnescaped_def)

text \<open>
  Claim C8, as amended. For each of \<^verbatim>\<open>findAll\<close>, \<^verbatim>\<open>findById\<close>, \<^verbatim>\<open>save\<close> and
  \<^verbatim>\<open>deleteById\<close>: when the transport rejects the one request of the operation with a
  value \<open>e\<close> (of any type: the operation cannot look into it), the operation's promise
  is rejected with that same \<open>e\<close>, and the request was issued once, with no retry.
  \<^verbatim>\<open>findAll\<close>, \<^verbatim>\<open>findById\<close> and \<^verbatim>\<open>save\<close> always return a promise and throw nothing. The
  one error produced locally is the \<^verbatim>\<open>URIError\<close> that \<^verbatim>\<open>deleteById\<close> throws, before
  any request, exactly when the id has an unpaired surrogate.
\<close>

theorem transport_failure_propagates:
  "(\<forall>e. answer issued
          \<lparr>req_method = ustr ''GET'', req_url = base,
            req_params = [(ustr ''type'', Str (ustr ''UserDatasource''))],
            req_data = Undefined\<rparr> = Rejected e \<longrightarrow>
        findAll base (recording answer) issued =
          (Rejected e,
           issued @ [\<lparr>req_method = ustr ''GET'', req_url = base,
                       req_params = [(ustr ''type'', Str (ustr ''UserDatasource''))],
                       req_data = Undefined\<rparr>])) \<and>
   (\<forall>e. answer issued
          \<lparr>req_method = ustr ''GET'', req_url = base @ ustr ''/'' @ ident,
            req_params = [], req_data = Undefined\<rparr> = Rejected e \<longrightarrow>
        findById base (recording answer) ident issued =
          (Rejected e,
           issued @ [\<lparr>req_method = ustr ''GET'', req_url = base @ ustr ''/'' @ ident,
                       req_params = [], req_data = Undefined\<rparr>])) \<and>
   (\<forall>e. answer issued
          \<lparr>req_method = ustr ''POST'', req_url = base, req_params = [],
            req_data = datasource\<rparr> = Rejected e \<longrightarrow>
        save base (recording answer) datasource issued =
          (Rejected e,
           issued @ [\<lparr>req_method = ustr ''POST'', req_url = base, req_params = [],
                       req_data = datasource\<rparr>])) \<and>
   (\<forall>e escaped.
        encodeURIComponent ident = Inr escaped \<and>
        answer issued
          \<lparr>req_method = ustr ''DELETE'', req_url = base @ ustr ''/'' @ escaped,
            req_params = [], req_data = Undefined\<rparr> = Rejected e \<longrightarrow>
        deleteById base (recording answer) ident issued =
          (Inr (Rejected e),
           issued @ [\<lparr>req_method = ustr ''DELETE'', req_url = base @ ustr ''/'' @ escaped,
                       req_params = [], req_data = Undefined\<rparr>])) \<and>
   (\<forall>err w. deleteById base (recording answer) ident issued = (Inl err, w) \<longrightarrow>
        err = URIError \<and> \<not> wellFormed ident \<and> w = issued)"
proof (intro conjI allI impI)
  fix err w
  assume d: "deleteById base (recording answer) ident issued = (Inl err, w)"
  then obtain e where e: "encodeURIComponent ident = Inl e"
    by (cases "encodeURIComponent ident") (auto simp: deleteById_def recording_def)
  with d have "err = e" "w = issued" by (simp_all add: deleteById_def)
  with encodeURIComponent_Inl [OF e]
  show "err = URIError" "\<not> wellFormed ident" "w = issued" by simp_all
qed (simp_all add: findAll_def findById_def save_def deleteById_def http_get_def http_post_def
    recording_def then_promise_def USER_TYPE_def)

theorem transport_failure_propagates_witness:
  "findAll (ustr ''/ds'') (recording (rejects not_found)) [] =
     (Rejected not_found,
      [\<lparr>req_method = ustr ''GET'', req_url = ustr ''/ds'',
         req_params = [(ustr ''type'', Str (ustr ''UserDatasource''))],
         req_data = Undefined\<rparr>]) \<and>
   findById (ustr ''/ds'') (recording (rejects not_found)) (ustr ''a'') [] =
     (Rejected not_found,
      [\<lparr>req_method = ustr ''GET'', req_url = ustr ''/ds/a'',
         req_params = [], req_data = Undefined\<rparr>]) \<and>
   save (ustr ''/ds'') (recording (rejects not_found)) (Ref 0) [] =
     (Rejected not_found,
      [\<lparr>req_method = ustr ''POST'', req_url = ustr ''/ds'', req_params = [],
         req_data = Ref 0\<rparr>]) \<and>
   deleteById (ustr ''/ds'') (recording (rejects not_found)) (ustr ''a'') [] =
     (Inr (Rejected not_found),
      [\<lparr>req_method = ustr ''DELETE'', req_url = ustr ''/ds/a'',
         req_params = [], req_data = Undefined\<rparr>])"
  using transport_failure_propagates
    [of "rejects not_found" "[]" "ustr ''/ds''" "ustr ''a''" "Ref 0"] Encode_plain
  by (simp add: rejects_def encodeURIComponent_def) (simp add: ustr_def)

text \<open>
  Claim C8 as stated (no operation ever raises a locally produced error) fails for
  \<^verbatim>\<open>deleteById\<close> at the one-unit string of the code unit \<open>0xD800\<close>: the call throws
  \<^verbatim>\<open>URIError\<close>.
\<close>

theorem transport_failure_propagates_counterexample:
  "fst (deleteById (ustr ''/ds'') (recording (rejects not_found)) [0xD800] []) = Inl URIError"
  by (simp add: deleteById_def encodeURIComponent_def uriUnescaped_def ustr_def
      isLeadingSurrogate_def isTrailingSurrogate_def)

text \<open>
  Claim C9, as amended. For every id string, the promise of \<^verbatim>\<open>deleteById(id)\<close> is
  fulfilled with \<open>r\<close> exactly when the transport fulfilled the \<^verbatim>\<open>DELETE\<close> request with
  \<open>r\<close>: the caller receives the transport's response object itself, with the
  \<^verbatim>\<open>data\<close>, \<^verbatim>\<open>status\<close> and \<^verbatim>\<open>statusText\<close> the transport gave it, neither unwrapped nor
  replaced by an empty value.
\<close>

theorem deleteById_resolves_with_response:
  "fst (deleteById base (recording answer) ident issued) = Inr (Resolved r) \<longleftrightarrow>
     (\<exists>escaped. encodeURIComponent ident = Inr escaped \<and>
        answer issued
          \<lparr>req_method = ustr ''DELETE'', req_url = base @ ustr ''/'' @ escaped,
            req_params = [], req_data = Undefined\<rparr> = Resolved r)"
  by (cases "encodeURIComponent ident") (auto simp: deleteById_def recording_def)

theorem deleteById_resolves_with_response_witness:
  "fst (deleteById (ustr ''/ds'') (recording (fulfils (ok_response Undefined))) (ustr ''a'') []) =
     Inr (Resolved \<lparr>data = Undefined, status = 200, statusText = ustr ''OK''\<rparr>)"
  using deleteById_resolves_with_response
    [of "ustr ''/ds''" "fulfils (ok_response Undefined)" "ustr ''a''" "[]" "ok_response Undefined"]
    Encode_plain
  by (simp add: fulfils_def encodeURIComponent_def ok_response_def)

text \<open>
  Claim C9 as stated (a successful delete carries no payload) fails when the transport
  answers the \<^verbatim>\<open>DELETE\<close> with a body: the caller receives that body in the response.
\<close>

theorem deleteById_resolves_with_response_counterexample:
  "fst (deleteById (ustr ''/ds'') (recording (fulfils (ok_response (Str (ustr ''deleted'')))))
         (ustr ''a'') []) =
     Inr (Resolved \<lparr>data = Str (ustr ''deleted''), status = 200, statusText = ustr ''OK''\<rparr>)"
  using Encode_plain
  by (simp add: deleteById_def recording_def fulfils_def encodeURIComponent_def ok_response_def)

section \<open>The store and the pure helpers\<close>

lemma deref_append: "a < length h \<Longrightarrow> deref (h @ hs) a = deref h a"
  by (simp add: deref_def nth_append)

lemma deref_fresh: "deref (h @ [obj]) (length h) = Some obj"
  by (simp add: deref_def)

lemma deref_Some_less: "deref h a = Some obj \<Longrightarrow> a < length h"
  by (simp add: deref_def split: if_splits)

lemma elements_Some:
  "elements h v = Some xs \<longleftrightarrow> (\<exists>a. v = Ref a \<and> a < length h \<and> deref h a = Some (Array xs))"
  by (auto simp: elements_def dest: deref_Some_less split: jsval.splits option.splits heapobj.splits)

lemma is_datasource_iff:
  "is_datasource h d \<longleftrightarrow> (\<exists>a ps. d = Ref a \<and> a < length h \<and> deref h a = Some (Object ps))"
  by (auto simp: is_datasource_def dest: deref_Some_less
      split: jsval.splits option.splits heapobj.splits)

lemma elements_append: "elements h v = Some xs \<Longrightarrow> elements (h @ hs) v = Some xs"
  unfolding elements_Some by (auto simp: deref_append)

lemma is_datasource_append: "is_datasource h d \<Longrightarrow> is_datasource (h @ hs) d"
  unfolding is_datasource_iff by (auto simp: deref_append)

lemma elements_fresh: "elements (h @ [Array xs]) (Ref (length h)) = Some xs"
  by (simp add: elements_def deref_fresh)

lemma isArray_elements: "isArray h v \<longleftrightarrow> (\<exists>xs. elements h v = Some xs)"
  by (auto simp: isArray_def elements_def split: jsval.splits option.splits heapobj.splits)

lemma field_append: "is_datasource h d \<Longrightarrow> field (h @ hs) d k = field h d k"
  unfolding is_datasource_iff by (auto simp: field_def own_property_def deref_append)

lemma get_id_datasource: "is_datasource h d \<Longrightarrow> get_id h d = Inr (field h d (ustr ''id''))"
  by (auto simp: is_datasource_def get_id_def split: jsval.splits)

lemma index_from_found: "0 \<le> k \<Longrightarrow> - 1 < index_from xs v k \<longleftrightarrow> v \<in> set xs"
proof (induction xs arbitrary: k)
  case Nil
  then show ?case by simp
next
  case (Cons x xs)
  from Cons.prems have "0 \<le> k + 1" by simp
  from Cons.IH [OF this] Cons.prems show ?case by auto
qed

lemma filter_elements_total:
  "\<forall>x \<in> set xs. callback x = Inr (P x) \<Longrightarrow> filter_elements callback xs = Inr (filter P xs)"
  by (induction xs) simp_all

lemma map_elements_total:
  "\<forall>x \<in> set xs. callback x = Inr (f x) \<Longrightarrow> map_elements callback xs = Inr (map f xs)"
  by (induction xs) simp_all

lemma filter_elements_subseq: "filter_elements callback xs = Inr ys \<Longrightarrow> subseq ys xs"
proof (induction xs arbitrary: ys)
  case Nil
  then show ?case by simp
next
  case (Cons x xs)
  from Cons.prems obtain keep zs where "filter_elements callback xs = Inr zs"
    and ys: "ys = (if keep then x # zs else zs)"
    by (auto split: sum.splits)
  with Cons.IH have "subseq zs xs" by simp
  with ys show ?case by auto
qed

lemmas sample_simps =
  sample_store_def elements_def deref_def is_datasource_def field_def own_property_def

text \<open>
  Claim C1. Let \<open>ids\<close> be a single id string \<open>s\<close> (then the id set is \<open>{s}\<close>) or an
  array of the id strings \<open>ss\<close>, and let \<open>array\<close> be an array whose elements \<open>xs\<close> are
  datasources. Then \<^verbatim>\<open>filterArrayByIds(ids, array)\<close> does not throw and returns an array
  holding exactly the elements of \<open>xs\<close> whose \<^verbatim>\<open>id\<close> field is a string equal, code unit
  by code unit, to one of the ids, in the order of \<open>xs\<close>. With an empty id sequence, or
  when no element matches, the array returned is empty.
\<close>

theorem filterArrayByIds_selects:
  assumes ids: "ids = Str s \<and> ss = [s] \<or> elements h ids = Some (map Str ss)"
    and arr: "elements h array = Some xs"
    and ds: "\<forall>d \<in> set xs. is_datasource h d"
  shows "\<exists>r h'. filterArrayByIds h ids array = (Inr r, h') \<and>
           elements h' r = Some (filter (\<lambda>d. \<exists>i \<in> set ss. field h d (ustr ''id'') = Str i) xs) \<and>
           (ss = [] \<longrightarrow> elements h' r = Some []) \<and>
           ((\<forall>d \<in> set xs. \<forall>i \<in> set ss. field h d (ustr ''id'') \<noteq> Str i) \<longrightarrow>
              elements h' r = Some [])"
proof -
  let ?P = "\<lambda>d. \<exists>i \<in> set ss. field h d (ustr ''id'') = Str i"
  obtain idList hs where
    choice: "(if isArray h ids then (ids, h) else alloc h (Array [ids])) = (idList, h @ hs)"
    and idList: "elements (h @ hs) idList = Some (map Str ss)"
  proof (cases "isArray h ids")
    case True
    with ids have "elements h ids = Some (map Str ss)"
      by (auto simp: isArray_def)
    with True that [of ids "[]"] show ?thesis by simp
  next
    case False
    with ids have "ids = Str s" "ss = [s]"
      by (auto simp: isArray_elements)
    with False that [of "Ref (length h)" "[Array [ids]]"] show ?thesis
      by (simp add: alloc_def elements_fresh)
  qed
  let ?h1 = "h @ hs"
  let ?callback = "\<lambda>datasource.
     case get_id ?h1 datasource of
       Inl e \<Rightarrow> Inl e
     | Inr i \<Rightarrow> (case indexOf ?h1 idList i of Inl e \<Rightarrow> Inl e | Inr n \<Rightarrow> Inr (n > - 1))"
  have callback: "?callback d = Inr (?P d)" if "d \<in> set xs" for d
  proof -
    from that ds have d: "is_datasource h d" by simp
    then have "is_datasource ?h1 d"
      by (rule is_datasource_append)
    then have "get_id ?h1 d = Inr (field h d (ustr ''id''))"
      using d by (simp add: get_id_datasource field_append)
    moreover have "indexOf ?h1 idList v = Inr (index_from (map Str ss) v 0)" for v
      by (simp add: indexOf_def idList)
    moreover have "- 1 < index_from (map Str ss) v 0 \<longleftrightarrow> (\<exists>i \<in> set ss. v = Str i)" for v
      by (auto simp: index_from_found)
    ultimately show ?thesis by simp
  qed
  define ys where "ys = filter ?P xs"
  have "filter_elements ?callback xs = Inr (filter ?P xs)"
    by (rule filter_elements_total) (simp add: callback)
  then have filtered: "filter_elements ?callback xs = Inr ys"
    by (simp only: ys_def)
  have arr1: "elements ?h1 array = Some xs"
    using arr by (rule elements_append)
  have "array_filter ?h1 array ?callback = (Inr (Ref (length ?h1)), ?h1 @ [Array ys])"
    by (simp only: array_filter_def arr1 filtered alloc_def option.case sum.case prod.case)
  then have run: "filterArrayByIds h ids array = (Inr (Ref (length ?h1)), ?h1 @ [Array ys])"
    by (simp only: filterArrayByIds_def choice prod.case)
  have result: "elements (?h1 @ [Array ys]) (Ref (length ?h1)) = Some ys"
    by (rule elements_fresh)
  have none: "ys = []" if "ss = []"
    using that by (simp add: ys_def)
  have unmatched: "ys = []"
    if "\<forall>d \<in> set xs. \<forall>i \<in> set ss. field h d (ustr ''id'') \<noteq> Str i"
    using that by (simp add: ys_def filter_empty_conv)
  have "elements (?h1 @ [Array ys]) (Ref (length ?h1)) = Some (filter ?P xs) \<and>
      (ss = [] \<longrightarrow> elements (?h1 @ [Array ys]) (Ref (length ?h1)) = Some []) \<and>
      ((\<forall>d \<in> set xs. \<forall>i \<in> set ss. field h d (ustr ''id'') \<noteq> Str i) \<longrightarrow>
         elements (?h1 @ [Array ys]) (Ref (length ?h1)) = Some [])"
  proof (intro conjI impI)
    show "elements (?h1 @ [Array ys]) (Ref (length ?h1)) = Some (filter ?P xs)"
      using result by (simp only: ys_def)
  next
    assume "ss = []"
    then have "ys = []" by (rule none)
    with result show "elements (?h1 @ [Array ys]) (Ref (length ?h1)) = Some []"
      by (simp only:)
  next
    assume "\<forall>d \<in> set xs. \<forall>i \<in> set ss. field h d (ustr ''id'') \<noteq> Str i"
    then have "ys = []" by (rule unmatched)
    with result show "elements (?h1 @ [Array ys]) (Ref (length ?h1)) = Some []"
      by (simp only:)
  qed
  with run show ?thesis by blast
qed

theorem filterArrayByIds_selects_witness:
  "elements sample_store (Ref 4) = Some (map Str [ustr ''a'', ustr ''c'']) \<and>
   elements sample_store (Ref 3) = Some [Ref 0, Ref 1, Ref 2] \<and>
   is_datasource sample_store (Ref 0) \<and> is_datasource sample_store (Ref 1) \<and>
   is_datasource sample_store (Ref 2) \<and>
   (\<exists>r h'. filterArrayByIds sample_store (Ref 4) (Ref 3) = (Inr r, h') \<and>
      elements h' r = Some [Ref 0, Ref 2])"
proof -
  have ids: "elements sample_store (Ref 4) = Some (map Str [ustr ''a'', ustr ''c''])"
    by (simp add: sample_simps)
  have arr: "elements sample_store (Ref 3) = Some [Ref 0, Ref 1, Ref 2]"
    by (simp add: sample_simps)
  have ds: "is_datasource sample_store (Ref 0)" "is_datasource sample_store (Ref 1)"
    "is_datasource sample_store (Ref 2)"
    by (simp_all add: sample_simps)
  then have all: "\<forall>d \<in> set [Ref 0, Ref 1, Ref 2]. is_datasource sample_store d" by simp
  have sel: "filter (\<lambda>d. \<exists>i \<in> set [ustr ''a'', ustr ''c'']. field sample_store d (ustr ''id'') = Str i)
      [Ref 0, Ref 1, Ref 2] = [Ref 0, Ref 2]"
    by (simp add: sample_simps)
  from filterArrayByIds_selects [OF disjI2 arr all, of "Ref 4" "[ustr ''a'', ustr ''c'']", OF ids]
  have "\<exists>r h'. filterArrayByIds sample_store (Ref 4) (Ref 3) = (Inr r, h') \<and>
      elements h' r = Some [Ref 0, Ref 2]"
    unfolding sel by blast
  with ids arr ds show ?thesis by blast
qed

text \<open>
  Claim C2. For a single datasource \<open>d\<close>, \<^verbatim>\<open>getIds(d)\<close> returns the one-element array
  of the \<^verbatim>\<open>id\<close> field of \<open>d\<close>. For an array whose elements \<open>xs\<close> are datasources,
  \<^verbatim>\<open>getIds\<close> returns the array of the \<^verbatim>\<open>id\<close> fields of \<open>xs\<close>, element by element: same
  length, same order, a repeated datasource repeated, and \<^verbatim>\<open>undefined\<close> (the value of
  \<open>field\<close> for an object with no \<^verbatim>\<open>id\<close>) where the \<^verbatim>\<open>id\<close> is absent. Neither call
  throws.
\<close>

theorem getIds_maps:
  "(is_datasource h d \<longrightarrow>
      (\<exists>r h'. getIds h d = (Inr r, h') \<and> elements h' r = Some [field h d (ustr ''id'')])) \<and>
   (elements h array = Some xs \<and> (\<forall>x \<in> set xs. is_datasource h x) \<longrightarrow>
      (\<exists>r h'. getIds h array = (Inr r, h') \<and>
         elements h' r = Some (map (\<lambda>x. field h x (ustr ''id'')) xs)))"
proof (intro conjI impI)
  let ?h1 = "h @ [Array [d]]"
  assume d: "is_datasource h d"
  then have "\<not> isArray h d"
    by (auto simp: is_datasource_iff isArray_def)
  moreover have "elements ?h1 (Ref (length h)) = Some [d]"
    by (rule elements_fresh)
  moreover have "map_elements (get_id ?h1) [d] = Inr [field h d (ustr ''id'')]"
    using d by (simp add: get_id_datasource is_datasource_append field_append)
  ultimately have "getIds h d =
      (Inr (Ref (length ?h1)), ?h1 @ [Array [field h d (ustr ''id'')]])"
    by (simp add: getIds_def alloc_def array_map_def)
  moreover have "elements (?h1 @ [Array [field h d (ustr ''id'')]]) (Ref (length ?h1)) =
      Some [field h d (ustr ''id'')]"
    by (rule elements_fresh)
  ultimately show "\<exists>r h'. getIds h d = (Inr r, h') \<and> elements h' r = Some [field h d (ustr ''id'')]"
    by blast
next
  let ?ys = "map (\<lambda>x. field h x (ustr ''id'')) xs"
  assume "elements h array = Some xs \<and> (\<forall>x \<in> set xs. is_datasource h x)"
  then have arr: "elements h array = Some xs" and ds: "\<forall>x \<in> set xs. is_datasource h x"
    by simp_all
  from arr have "isArray h array" by (auto simp: isArray_elements)
  moreover have "map_elements (get_id h) xs = Inr ?ys"
    by (rule map_elements_total) (simp add: ds get_id_datasource)
  ultimately have "getIds h array = (Inr (Ref (length h)), h @ [Array ?ys])"
    using arr by (simp add: getIds_def alloc_def array_map_def)
  moreover have "elements (h @ [Array ?ys]) (Ref (length h)) = Some ?ys"
    by (rule elements_fresh)
  ultimately show "\<exists>r h'. getIds h array = (Inr r, h') \<and> elements h' r = Some ?ys"
    by blast
qed

theorem getIds_maps_witness:
  "is_datasource sample_store (Ref 0) \<and>
   (\<exists>r h'. getIds sample_store (Ref 0) = (Inr r, h') \<and> elements h' r = Some [Str (ustr ''a'')]) \<and>
   elements sample_store (Ref 6) = Some [Ref 0, Ref 5, Ref 0] \<and>
   is_datasource sample_store (Ref 5) \<and>
   (\<exists>r h'. getIds sample_store (Ref 6) = (Inr r, h') \<and>
      elements h' r = Some [Str (ustr ''a''), Undefined, Str (ustr ''a'')])"
proof -
  have d0: "is_datasource sample_store (Ref 0)" and d5: "is_datasource sample_store (Ref 5)"
    by (simp_all add: sample_simps)
  have arr: "elements sample_store (Ref 6) = Some [Ref 0, Ref 5, Ref 0]"
    by (simp add: sample_simps)
  have f0: "field sample_store (Ref 0) (ustr ''id'') = Str (ustr ''a'')"
    and f5: "field sample_store (Ref 5) (ustr ''id'') = Undefined"
    by (simp_all add: sample_simps)
  note spec = getIds_maps [of sample_store "Ref 0" "Ref 6" "[Ref 0, Ref 5, Ref 0]"]
  from spec d0 have one: "\<exists>r h'. getIds sample_store (Ref 0) = (Inr r, h') \<and>
      elements h' r = Some [Str (ustr ''a'')]"
    unfolding f0 by blast
  from spec arr d0 d5 have many: "\<exists>r h'. getIds sample_store (Ref 6) = (Inr r, h') \<and>
      elements h' r = Some [Str (ustr ''a''), Undefined, Str (ustr ''a'')]"
    by (simp add: f0 f5)
  from d0 d5 arr one many show ?thesis by blast
qed

text \<open>
  Claim C3. In every store, the object that \<^verbatim>\<open>newJdbcDatasource()\<close> returns has the
  property \<^verbatim>\<open>@type\<close> equal to \<^verbatim>\<open>"JdbcDatasource"\<close>, the property \<^verbatim>\<open>sourceForFeeds\<close> bound
  to an empty array, each of \<^verbatim>\<open>name\<close>, \<^verbatim>\<open>description\<close>, \<^verbatim>\<open>type\<close>,
  \<^verbatim>\<open>databaseConnectionUrl\<close>, \<^verbatim>\<open>databaseDriverClassName\<close>, \<^verbatim>\<open>databaseDriverLocation\<close>,
  \<^verbatim>\<open>databaseUser\<close> and \<^verbatim>\<open>password\<close> present and equal to the empty string, and no
  property \<^verbatim>\<open>id\<close> (reading it gives \<^verbatim>\<open>undefined\<close>).
\<close>

theorem newJdbcDatasource_fields:
  "(case newJdbcDatasource h of
      (d, h') \<Rightarrow>
        own_property h' d (ustr ''@type'') = Some (Str (ustr ''JdbcDatasource'')) \<and>
        (\<exists>feeds. own_property h' d (ustr ''sourceForFeeds'') = Some feeds \<and>
           elements h' feeds = Some []) \<and>
        own_property h' d (ustr ''name'') = Some (Str (ustr '''')) \<and>
        own_property h' d (ustr ''description'') = Some (Str (ustr '''')) \<and>
        own_property h' d (ustr ''type'') = Some (Str (ustr '''')) \<and>
        own_property h' d (ustr ''databaseConnectionUrl'') = Some (Str (ustr '''')) \<and>
        own_property h' d (ustr ''databaseDriverClassName'') = Some (Str (ustr '''')) \<and>
        own_property h' d (ustr ''databaseDriverLocation'') = Some (Str (ustr '''')) \<and>
        own_property h' d (ustr ''databaseUser'') = Some (Str (ustr '''')) \<and>
        own_property h' d (ustr ''password'') = Some (Str (ustr '''')) \<and>
        own_property h' d (ustr ''id'') = None \<and>
        field h' d (ustr ''id'') = Undefined)"
proof -
  have cell: "deref ((h @ [Array []]) @ [obj]) (Suc (length h)) = Some obj" for obj
    using deref_fresh [of "h @ [Array []]" obj] by simp
  have feeds: "elements ((h @ [Array []]) @ [obj]) (Ref (length h)) = Some []" for obj
    by (rule elements_append) (rule elements_fresh)
  show ?thesis
    using feeds by (simp add: newJdbcDatasource_def alloc_def own_property_def field_def cell
        JDBC_TYPE_def del: append_assoc)
qed

theorem newJdbcDatasource_fields_witness:
  "newJdbcDatasource [] =
     (Ref 1,
      [Array [],
       Object
        [(ustr ''@type'', Str (ustr ''JdbcDatasource'')),
         (ustr ''name'', Str []),
         (ustr ''description'', Str []),
         (ustr ''sourceForFeeds'', Ref 0),
         (ustr ''type'', Str []),
         (ustr ''databaseConnectionUrl'', Str []),
         (ustr ''databaseDriverClassName'', Str []),
         (ustr ''databaseDriverLocation'', Str []),
         (ustr ''databaseUser'', Str []),
         (ustr ''password'', Str [])]]) \<and>
   own_property (snd (newJdbcDatasource [])) (Ref 1) (ustr ''id'') = None"
  using newJdbcDatasource_fields [of "[]"]
  by (simp add: newJdbcDatasource_def alloc_def JDBC_TYPE_def ustr_def)

lemma array_filter_frame:
  "a < length h \<Longrightarrow> deref (snd (array_filter h array callback)) a = deref h a"
  by (simp add: array_filter_def alloc_def deref_append split: option.splits sum.splits)

lemma array_map_frame:
  "a < length h \<Longrightarrow> deref (snd (array_map h array callback)) a = deref h a"
  by (simp add: array_map_def alloc_def deref_append split: option.splits sum.splits)

lemma array_filter_result:
  assumes "array_filter h array callback = (Inr r, h')"
  shows "\<exists>xs ys. elements h array = Some xs \<and> r = Ref (length h) \<and> h' = h @ [Array ys] \<and>
           subseq ys xs"
proof -
  from assms obtain xs where xs: "elements h array = Some xs"
    by (cases "elements h array") (auto simp: array_filter_def)
  with assms obtain ys where ys: "filter_elements callback xs = Inr ys"
    by (cases "filter_elements callback xs") (auto simp: array_filter_def)
  with assms xs have "r = Ref (length h)" "h' = h @ [Array ys]"
    by (simp_all add: array_filter_def alloc_def)
  moreover from ys have "subseq ys xs" by (rule filter_elements_subseq)
  ultimately show ?thesis using xs by blast
qed

lemma array_map_result:
  assumes "array_map h array callback = (Inr r, h')"
  shows "r = Ref (length h)"
proof -
  from assms obtain xs where xs: "elements h array = Some xs"
    by (cases "elements h array") (auto simp: array_map_def)
  with assms obtain ys where ys: "map_elements callback xs = Inr ys"
    by (cases "map_elements callback xs") (auto simp: array_map_def)
  with assms xs show ?thesis
    by (simp add: array_map_def alloc_def)
qed

lemma wrap_choice:
  "\<exists>hs. (if isArray h v then (v, h) else alloc h (Array [v])) =
          (if isArray h v then v else Ref (length h), h @ hs)"
proof (cases "isArray h v")
  case True
  then have "(if isArray h v then (v, h) else alloc h (Array [v])) =
      (if isArray h v then v else Ref (length h), h @ [])" by simp
  then show ?thesis by blast
next
  case False
  then have "(if isArray h v then (v, h) else alloc h (Array [v])) =
      (if isArray h v then v else Ref (length h), h @ [Array [v]])" by (simp add: alloc_def)
  then show ?thesis by blast
qed

lemma sample_filter:
  "filterArrayByIds sample_store (Str (ustr ''b'')) (Ref 3) =
     (Inr (Ref 8), sample_store @ [Array [Str (ustr ''b'')], Array [Ref 1]])"
  by (simp add: filterArrayByIds_def isArray_def alloc_def array_filter_def indexOf_def get_id_def
      sample_simps)

lemma sample_getIds:
  "getIds sample_store (Ref 3) =
     (Inr (Ref 7), sample_store @ [Array [Str (ustr ''a''), Str (ustr ''b''), Str (ustr ''c'')]])"
  by (simp add: getIds_def isArray_def alloc_def array_map_def get_id_def sample_simps)

text \<open>
  Claim C10. For every store \<open>h\<close> and every argument, \<^verbatim>\<open>filterArrayByIds\<close> and
  \<^verbatim>\<open>getIds\<close> leave every cell of \<open>h\<close> as it was, whether they return or throw: the
  input array, each datasource in it and the ids keep their contents. What they return
  is a reference to a new cell, at an address \<open>h\<close> did not have. For
  \<^verbatim>\<open>filterArrayByIds\<close> on an array with the elements \<open>xs\<close>, the elements of the new array
  are a subsequence of \<open>xs\<close>: the same references, selected in order, not copies.
\<close>

theorem helpers_leave_arguments_unchanged:
  "(\<forall>a. a < length h \<longrightarrow> deref (snd (filterArrayByIds h ids array)) a = deref h a) \<and>
   (\<forall>a. a < length h \<longrightarrow> deref (snd (getIds h datasources)) a = deref h a) \<and>
   (\<forall>r. fst (getIds h datasources) = Inr r \<longrightarrow> (\<exists>a. r = Ref a \<and> length h \<le> a)) \<and>
   (\<forall>r xs. fst (filterArrayByIds h ids array) = Inr r \<and> elements h array = Some xs \<longrightarrow>
      (\<exists>a ys. r = Ref a \<and> length h \<le> a \<and>
         elements (snd (filterArrayByIds h ids array)) r = Some ys \<and> subseq ys xs))"
proof (intro conjI allI impI)
  fix a
  assume a: "a < length h"
  obtain idList hs where
    choice: "(if isArray h ids then (ids, h) else alloc h (Array [ids])) = (idList, h @ hs)"
    using wrap_choice [of h ids] by blast
  from a have "a < length (h @ hs)" by simp
  then have "deref (snd (filterArrayByIds h ids array)) a = deref (h @ hs) a"
    by (simp only: filterArrayByIds_def choice prod.case array_filter_frame)
  with a show "deref (snd (filterArrayByIds h ids array)) a = deref h a"
    by (simp add: deref_append)
next
  fix a
  assume a: "a < length h"
  obtain arr hs where
    choice: "(if isArray h datasources then (datasources, h) else alloc h (Array [datasources])) =
      (arr, h @ hs)"
    using wrap_choice [of h datasources] by blast
  from a have "a < length (h @ hs)" by simp
  then have "deref (snd (getIds h datasources)) a = deref (h @ hs) a"
    by (simp only: getIds_def choice prod.case array_map_frame)
  with a show "deref (snd (getIds h datasources)) a = deref h a"
    by (simp add: deref_append)
next
  fix r
  assume r: "fst (getIds h datasources) = Inr r"
  obtain arr hs where
    choice: "(if isArray h datasources then (datasources, h) else alloc h (Array [datasources])) =
      (arr, h @ hs)"
    using wrap_choice [of h datasources] by blast
  from r have "array_map (h @ hs) arr (\<lambda>datasource. get_id (h @ hs) datasource) =
      (Inr r, snd (getIds h datasources))"
    by (simp add: getIds_def choice prod_eq_iff)
  then have "r = Ref (length (h @ hs))" by (rule array_map_result)
  then show "\<exists>a. r = Ref a \<and> length h \<le> a" by simp
next
  fix r xs
  assume "fst (filterArrayByIds h ids array) = Inr r \<and> elements h array = Some xs"
  then have r: "fst (filterArrayByIds h ids array) = Inr r" and xs: "elements h array = Some xs"
    by simp_all
  obtain idList hs where
    choice: "(if isArray h ids then (ids, h) else alloc h (Array [ids])) = (idList, h @ hs)"
    using wrap_choice [of h ids] by blast
  let ?h' = "snd (filterArrayByIds h ids array)"
  from r obtain callback where "array_filter (h @ hs) array callback = (Inr r, ?h')"
    by (simp add: filterArrayByIds_def choice prod_eq_iff)
  from array_filter_result [OF this] obtain xs' ys where
    xs': "elements (h @ hs) array = Some xs'" and ref: "r = Ref (length (h @ hs))"
    and h': "?h' = (h @ hs) @ [Array ys]" and sub: "subseq ys xs'"
    by blast
  from xs have "elements (h @ hs) array = Some xs" by (rule elements_append)
  with xs' have "xs' = xs" by simp
  moreover have "elements ?h' r = Some ys"
    unfolding h' ref by (rule elements_fresh)
  ultimately show "\<exists>a ys. r = Ref a \<and> length h \<le> a \<and> elements ?h' r = Some ys \<and> subseq ys xs"
    using ref sub by simp
qed

theorem helpers_leave_arguments_unchanged_witness:
  "deref (snd (filterArrayByIds sample_store (Str (ustr ''b'')) (Ref 3))) 3 =
     Some (Array [Ref 0, Ref 1, Ref 2]) \<and>
   deref (snd (filterArrayByIds sample_store (Str (ustr ''b'')) (Ref 3))) 1 =
     Some (Object [(ustr ''id'', Str (ustr ''b''))]) \<and>
   deref (snd (getIds sample_store (Ref 3))) 3 = Some (Array [Ref 0, Ref 1, Ref 2]) \<and>
   fst (getIds sample_store (Ref 3)) = Inr (Ref 7) \<and>
   fst (filterArrayByIds sample_store (Str (ustr ''b'')) (Ref 3)) = Inr (Ref 8) \<and>
   elements (snd (filterArrayByIds sample_store (Str (ustr ''b'')) (Ref 3))) (Ref 8) = Some [Ref 1] \<and>
   subseq [Ref 1 :: jsval] [Ref 0, Ref 1, Ref 2]"
proof -
  note frame = helpers_leave_arguments_unchanged
    [of sample_store "Str (ustr ''b'')" "Ref 3" "Ref 3"]
  have len: "(3::nat) < length sample_store" "(1::nat) < length sample_store"
    by (simp_all add: sample_store_def)
  have cells: "deref sample_store 3 = Some (Array [Ref 0, Ref 1, Ref 2])"
    "deref sample_store 1 = Some (Object [(ustr ''id'', Str (ustr ''b''))])"
    by (simp_all add: sample_simps)
  from frame len cells
  have "deref (snd (filterArrayByIds sample_store (Str (ustr ''b'')) (Ref 3))) 3 =
      Some (Array [Ref 0, Ref 1, Ref 2])"
    and "deref (snd (filterArrayByIds sample_store (Str (ustr ''b'')) (Ref 3))) 1 =
      Some (Object [(ustr ''id'', Str (ustr ''b''))])"
    and "deref (snd (getIds sample_store (Ref 3))) 3 = Some (Array [Ref 0, Ref 1, Ref 2])"
    by simp_all
  moreover have "fst (getIds sample_store (Ref 3)) = Inr (Ref 7)"
    by (simp add: sample_getIds)
  moreover have "fst (filterArrayByIds sample_store (Str (ustr ''b'')) (Ref 3)) = Inr (Ref 8)"
    by (simp add: sample_filter)
  moreover have "elements (snd (filterArrayByIds sample_store (Str (ustr ''b'')) (Ref 3))) (Ref 8) =
      Some [Ref 1]"
    unfolding sample_filter snd_conv by (simp add: sample_simps)
  moreover have "subseq [Ref 1 :: jsval] [Ref 0, Ref 1, Ref 2]"
    by simp
  ultimately show ?thesis by blast
qed

end
